theory Spec2Isabelle
  imports Main "HOL-Library.Word"
begin

section \<open>Go values shared by the three versions of the resolver\<close>

text \<open>
  The repository holds three versions of \<^verbatim>\<open>baseURL\<close>: the one of
  \<^verbatim>\<open>libravatar.go\<close> (weighted choice among SRV records, no use of the cache), the
  one of \<^verbatim>\<open>unnamed/part_000\<close> (first record, with the name cache) and the one of
  \<^verbatim>\<open>unnamed/part_001\<close> (first record, no cache). Names of the first are kept as
  they are; those of the other two carry the suffix of their file.
\<close>

type_synonym uint16 = "16 word"

text \<open>
  An \<^verbatim>\<open>error\<close> value: a \<^verbatim>\<open>*net.DNSError\<close> with its \<^verbatim>\<open>IsTimeout\<close> field, or
  an error of any other dynamic type (such as the one \<^verbatim>\<open>fmt.Errorf\<close> builds).
\<close>

datatype go_error = DNSError (IsTimeout: bool) | ErrorString string

text \<open>The run-time panics the code can raise.\<close>

datatype panic =
    TypeAssertion    \<comment> \<open>\<^verbatim>\<open>err.(*net.DNSError)\<close> on an error of another type\<close>
  | IntnArgument     \<comment> \<open>\<^verbatim>\<open>rand.Intn(n)\<close> with \<^verbatim>\<open>n <= 0\<close>\<close>
  | NilDereference   \<comment> \<open>a field of a nil \<^verbatim>\<open>*net.SRV\<close>\<close>
  | SliceBounds      \<comment> \<open>\<^verbatim>\<open>tgt[:len(tgt)-1]\<close> on the empty string\<close>

text \<open>\<^verbatim>\<open>net.SRV\<close>.\<close>

record SRV =
  Target :: string
  Port :: uint16
  Priority :: uint16
  Weight :: uint16

text \<open>
  \<^verbatim>\<open>net.LookupSRV(service, proto, name)\<close> is the environment: a function from the
  three strings to the records and the error it returns (the canonical name is
  dropped by every caller). The records of an answer are pointers to \<^verbatim>\<open>net.SRV\<close>
  values, none of them nil. A DNS query is logged as the triple of its arguments.
\<close>

type_synonym query = "string \<times> string \<times> string"
type_synonym resolver = "string \<Rightarrow> string \<Rightarrow> string \<Rightarrow> SRV list \<times> go_error option"

record cacheKey =
  service :: string
  domain :: string

record cacheValue =
  target :: string
  checkedAt :: int   \<comment> \<open>a \<^verbatim>\<open>time.Time\<close>, as nanoseconds on one clock\<close>

text \<open>
  \<^verbatim>\<open>time.Duration\<close> is an \<^verbatim>\<open>int64\<close> of nanoseconds, and \<^verbatim>\<open>t.Sub(u)\<close>
  saturates at its two ends.
\<close>

definition maxDuration :: int where
  "maxDuration = 2 ^ 63 - 1"

definition minDuration :: int where
  "minDuration = - (2 ^ 63)"

definition Hour :: int where
  "Hour = 3600 * 1000000000"

definition Sub :: "int \<Rightarrow> int \<Rightarrow> int" where
  "Sub t u = (let d = t - u in
     if d > maxDuration then maxDuration
     else if d < minDuration then minDuration
     else d)"

text \<open>\<^verbatim>\<open>strings.TrimSuffix\<close>.\<close>

definition TrimSuffix :: "string \<Rightarrow> string \<Rightarrow> string" where
  "TrimSuffix s suffix =
     (if length suffix \<le> length s \<and> drop (length s - length suffix) s = suffix
      then take (length s - length suffix) s else s)"

text \<open>The verb \<^verbatim>\<open>%d\<close> of \<^verbatim>\<open>fmt.Sprintf\<close> on an unsigned number.\<close>

definition digit :: "nat \<Rightarrow> char" where
  "digit d = ''0123456789'' ! d"

fun decimal :: "nat \<Rightarrow> string" where
  "decimal n = (if n < 10 then [digit n] else decimal (n div 10) @ [digit (n mod 10)])"

declare decimal.simps [simp del]

text \<open>
  \<^verbatim>\<open>rand.Intn(n)\<close> panics when \<^verbatim>\<open>n <= 0\<close> and otherwise returns a number of
  \<^verbatim>\<open>[0, n)\<close>. The number the generator yields is the parameter \<open>r\<close>; what the
  library guarantees about it, \<open>r < n\<close>, is a hypothesis of the theorems that need it.
\<close>

definition Intn :: "nat \<Rightarrow> int \<Rightarrow> panic + int" where
  "Intn r n = (if n \<le> 0 then Inl IntnArgument else Inr (int r))"


section \<open>\<^verbatim>\<open>libravatar.go\<close>\<close>

record Libravatar =
  defUrl :: string
  picSize :: int
  fallbackHost :: string
  secureFallbackHost :: string
  useHTTPS :: bool
  nameCache :: "cacheKey \<rightharpoonup> cacheValue"
  nameCacheDuration :: int
  minAvatarSize :: "64 word"
  maxAvatarSize :: "64 word"
  AvatarSize :: "64 word"
  serviceBase :: string
  secureServiceBase :: string

definition New :: Libravatar where
  "New = \<lparr> defUrl = '''', picSize = 0,
           fallbackHost = ''cdn.libravatar.org'',
           secureFallbackHost = ''seccdn.libravatar.org'',
           useHTTPS = False,
           nameCache = Map.empty,
           nameCacheDuration = 24 * Hour,
           minAvatarSize = 1, maxAvatarSize = 512, AvatarSize = 0,
           serviceBase = ''avatars'', secureServiceBase = ''avatars-sec'' \<rparr>"


definition SetUseHTTPS :: "Libravatar \<Rightarrow> bool \<Rightarrow> Libravatar" where
  "SetUseHTTPS v use = v\<lparr>useHTTPS := use\<rparr>"

text \<open>The local struct \<^verbatim>\<open>record\<close> of \<^verbatim>\<open>baseURL\<close>: a record and its cumulative weight.\<close>

record record_t =
  srv :: SRV
  weight :: uint16

text \<open>
  The first loop of the multi-record branch. Its state is
  \<^verbatim>\<open>(total_weight, records, top_priority)\<close>; \<open>weigh_step\<close> is one pass of the body.
\<close>

type_synonym weigh_state = "uint16 \<times> record_t list \<times> uint16"

definition weigh_step :: "SRV \<Rightarrow> weigh_state \<Rightarrow> weigh_state" where
  "weigh_step rr st =
     (case st of (total_weight, records, top_priority) \<Rightarrow>
        if Priority rr > top_priority then st
        else
          (case (if Priority rr < top_priority then (0, [], Priority rr) else st) of
             (total_weight1, records1, top_priority1) \<Rightarrow>
               let total_weight2 = total_weight1 + Weight rr in
               if Weight rr > 0 then
                 (total_weight2, records1 @ [\<lparr>srv = rr, weight = total_weight2\<rparr>], top_priority1)
               else if Weight rr = 0 then
                 (total_weight2, \<lparr>srv = rr, weight = total_weight2\<rparr> # records1, top_priority1)
               else (total_weight2, records1, top_priority1)))"

fun weigh :: "SRV list \<Rightarrow> weigh_state \<Rightarrow> weigh_state" where
  "weigh [] st = st"
| "weigh (rr # addrs) st = weigh addrs (weigh_step rr st)"

text \<open>The second loop: the first record whose cumulative weight reaches \<^verbatim>\<open>randnum\<close>;
  \<open>None\<close> is \<^verbatim>\<open>top_record\<close> left nil.\<close>

fun first_match :: "record_t list \<Rightarrow> uint16 \<Rightarrow> SRV option" where
  "first_match [] randnum = None"
| "first_match (rr # records) randnum =
     (if weight rr \<ge> randnum then Some (srv rr) else first_match records randnum)"

text \<open>
  The branch \<^verbatim>\<open>len(addrs) > 1\<close> up to the value of \<^verbatim>\<open>top_record\<close>. The list is not
  empty there, so \<^verbatim>\<open>addrs[0]\<close> is \<open>hd addrs\<close>.
\<close>

definition top_record :: "SRV list \<Rightarrow> nat \<Rightarrow> panic + SRV" where
  "top_record addrs r =
     (case weigh addrs (0, [], Priority (hd addrs)) of
        (total_weight, records, top_priority) \<Rightarrow>
          if length records = 1 then Inr (srv (records ! 0))
          else
            (case Intn r (uint total_weight) of
               Inl p \<Rightarrow> Inl p
             | Inr n \<Rightarrow>
                 (case first_match records (word_of_int n) of
                    None \<Rightarrow> Inl NilDereference
                  | Some s \<Rightarrow> Inr s)))"

text \<open>
  \<^verbatim>\<open>baseURL\<close>. \<open>host\<close> is the value of \<^verbatim>\<open>v.getDomain(email, openid)\<close>, \<open>r\<close> the
  number the random generator yields if it is asked. The result is the panic or the
  pair \<^verbatim>\<open>(string, error)\<close>, together with the DNS queries made. The handle is not
  written to: no statement of the function assigns to a field of \<^verbatim>\<open>v\<close>.
\<close>

definition baseURL ::
  "resolver \<Rightarrow> nat \<Rightarrow> Libravatar \<Rightarrow> string \<Rightarrow> (panic + string \<times> go_error option) \<times> query list" where
  "baseURL LookupSRV r v host =
     (case (if useHTTPS v then (''https://'', secureServiceBase v, secureFallbackHost v)
            else (''http://'', serviceBase v, fallbackHost v)) of
        (protocol, svc, fallback) \<Rightarrow>
          (case LookupSRV svc ''tcp'' host of
             (addrs, err) \<Rightarrow>
               ((case err of
                   Some (ErrorString m) \<Rightarrow> Inl TypeAssertion
                 | Some (DNSError True) \<Rightarrow> Inr ('''', err)
                 | _ \<Rightarrow>
                     if length addrs = 1 then
                       Inr (protocol @ TrimSuffix (Target (addrs ! 0)) ''.'', None)
                     else if length addrs > 1 then
                       (case top_record addrs r of
                          Inl p \<Rightarrow> Inl p
                        | Inr tr \<Rightarrow>
                            Inr (protocol @ Target tr @ '':'' @ decimal (unat (Port tr)), None))
                     else Inr (protocol @ fallback, None)),
                [(svc, ''tcp'', host)])))"

section \<open>\<^verbatim>\<open>unnamed/part_000\<close>: the resolver with the name cache\<close>

record Libravatar_p000 =
  defUrl_p000 :: string
  picSize_p000 :: int
  useDomain_p000 :: bool
  useHTTPS_p000 :: bool
  fallbackHost_p000 :: string
  nameCache_p000 :: "cacheKey \<rightharpoonup> cacheValue"
  nameCacheDuration_p000 :: int

definition New_p000 :: Libravatar_p000 where
  "New_p000 = \<lparr> defUrl_p000 = '''', picSize_p000 = 0, useDomain_p000 = False,
                useHTTPS_p000 = False, fallbackHost_p000 = ''cdn.libravatar.org'',
                nameCache_p000 = Map.empty, nameCacheDuration_p000 = 24 * Hour \<rparr>"


text \<open>
  The scheme, the service name and the cache key that \<^verbatim>\<open>baseURL\<close> computes from its
  arguments \<^verbatim>\<open>domain\<close> and \<^verbatim>\<open>useHTTPS\<close>.
\<close>

definition scheme_p000 :: "bool \<Rightarrow> string" where
  "scheme_p000 https = (if https then ''https://'' else ''http://'')"

definition service_p000 :: "bool \<Rightarrow> string" where
  "service_p000 https = (if https then ''avatars-sec'' else ''avatars'')"

definition key_p000 :: "string \<Rightarrow> bool \<Rightarrow> cacheKey" where
  "key_p000 host https = \<lparr>service = service_p000 https, domain = host\<rparr>"

text \<open>
  The test \<^verbatim>\<open>found && now.Sub(val.checkedAt) <= v.nameCacheDuration\<close> on the entry of
  the key, with the cached target when it holds.
\<close>

definition cached_p000 :: "int \<Rightarrow> Libravatar_p000 \<Rightarrow> cacheKey \<Rightarrow> string option" where
  "cached_p000 now v key =
     (case nameCache_p000 v key of
        None \<Rightarrow> None
      | Some val \<Rightarrow>
          if Sub now (checkedAt val) \<le> nameCacheDuration_p000 v then Some (target val)
          else None)"

text \<open>
  \<^verbatim>\<open>baseURL(domain, useHTTPS)\<close>. \<open>now\<close> is the value of \<^verbatim>\<open>time.Now()\<close>. The result
  is the panic or the pair \<^verbatim>\<open>(url, err)\<close>, the handle as the call leaves it, and the
  DNS queries made. The named result \<^verbatim>\<open>url\<close> holds the scheme from the start, so an
  early \<^verbatim>\<open>return\<close> with an error returns the scheme beside it. The \<^verbatim>\<open>DEBUG\<close> lines
  printed to the standard output are left out.
\<close>

definition baseURL_p000 ::
  "resolver \<Rightarrow> int \<Rightarrow> Libravatar_p000 \<Rightarrow> string \<Rightarrow> bool \<Rightarrow>
   (panic + string \<times> go_error option) \<times> Libravatar_p000 \<times> query list" where
  "baseURL_p000 LookupSRV now v host https =
     (let url = scheme_p000 https; svc = service_p000 https; key = key_p000 host https in
      case cached_p000 now v key of
        Some tgt \<Rightarrow> (Inr (url @ tgt, None), v, [])
      | None \<Rightarrow>
          (case LookupSRV svc ''tcp'' host of
             (addrs, e) \<Rightarrow>
               (case e of
                  Some (ErrorString m) \<Rightarrow> (Inl TypeAssertion, v, [(svc, ''tcp'', host)])
                | Some (DNSError True) \<Rightarrow> (Inr (url, e), v, [(svc, ''tcp'', host)])
                | Some (DNSError False) \<Rightarrow>
                    (Inr (url @ fallbackHost_p000 v, None),
                     v\<lparr>nameCache_p000 := (nameCache_p000 v)
                          (key \<mapsto> \<lparr>target = fallbackHost_p000 v, checkedAt = now\<rparr>)\<rparr>,
                     [(svc, ''tcp'', host)])
                | None \<Rightarrow>
                    if length addrs < 1 then
                      (Inr (url, Some (ErrorString ''empty SRV response'')), v,
                       [(svc, ''tcp'', host)])
                    else
                      let tgt = Target (addrs ! 0) in
                      if length tgt < 1 then (Inl SliceBounds, v, [(svc, ''tcp'', host)])
                      else
                        (Inr (url @ take (length tgt - 1) tgt, None),
                         v\<lparr>nameCache_p000 := (nameCache_p000 v)
                              (key \<mapsto> \<lparr>target = take (length tgt - 1) tgt,
                                       checkedAt = now\<rparr>)\<rparr>,
                         [(svc, ''tcp'', host)]))))"


section \<open>\<^verbatim>\<open>unnamed/part_001\<close>: the resolver without cache\<close>

record Libravatar_p001 =
  defUrl_p001 :: string
  picSize_p001 :: int
  useDomain_p001 :: bool
  useHTTPS_p001 :: bool
  fallbackHost_p001 :: string

definition New_p001 :: Libravatar_p001 where
  "New_p001 = \<lparr> defUrl_p001 = '''', picSize_p001 = 0, useDomain_p001 = False,
                useHTTPS_p001 = False, fallbackHost_p001 = ''cdn.libravatar.org'' \<rparr>"

definition baseURL_p001 ::
  "resolver \<Rightarrow> Libravatar_p001 \<Rightarrow> string \<Rightarrow> (panic + string \<times> go_error option) \<times> query list" where
  "baseURL_p001 LookupSRV v host =
     (case (if useHTTPS_p001 v then (''https://'', ''avatars-sec'')
            else (''http://'', ''avatars'')) of
        (url, svc) \<Rightarrow>
          (case LookupSRV svc ''tcp'' host of
             (addrs, e) \<Rightarrow>
               ((case e of
                   Some (ErrorString m) \<Rightarrow> Inl TypeAssertion
                 | Some (DNSError True) \<Rightarrow> Inr (url, e)
                 | Some (DNSError False) \<Rightarrow> Inr (url @ fallbackHost_p001 v, None)
                 | None \<Rightarrow>
                     if length addrs < 1 then Inr (url, Some (ErrorString ''empty SRV response''))
                     else
                       let tgt = Target (addrs ! 0) in
                       if length tgt < 1 then Inl SliceBounds
                       else Inr (url @ take (length tgt - 1) tgt, None)),
                [(svc, ''tcp'', host)])))"


section \<open>The selection algorithm as the specification words it\<close>

text \<open>
  The top-priority tier: the records whose priority no record of the list undercuts,
  in their original order.
\<close>

definition tier :: "SRV list \<Rightarrow> SRV list" where
  "tier addrs = filter (\<lambda>a. list_all (\<lambda>b. Priority a \<le> Priority b) addrs) addrs"

text \<open>
  The walk of the tier with a running cumulative weight \<open>W\<close>, a number without
  bound: a record of weight 0 goes to the front of the candidate list with the tag
  \<open>W\<close>, a record of positive weight adds its weight to \<open>W\<close> and goes to the end with
  the new \<open>W\<close>.
\<close>

fun spec_candidates :: "SRV list \<Rightarrow> nat \<times> (SRV \<times> nat) list \<Rightarrow> nat \<times> (SRV \<times> nat) list" where
  "spec_candidates [] st = st"
| "spec_candidates (x # xs) (W, cands) =
     (if Weight x = 0 then spec_candidates xs (W, (x, W) # cands)
      else spec_candidates xs (W + unat (Weight x), cands @ [(x, W + unat (Weight x))]))"

text \<open>
  The choice for the draw \<open>r\<close> of \<open>[0, W)\<close>: the only candidate if there is one
  candidate, else the first candidate whose tag is at least \<open>r\<close>.
\<close>

definition spec_select :: "SRV list \<Rightarrow> nat \<Rightarrow> SRV option" where
  "spec_select addrs r =
     (case spec_candidates (tier addrs) (0, []) of
        (W, cands) \<Rightarrow>
          if length cands = 1 then Some (fst (cands ! 0))
          else map_option fst (find (\<lambda>c. snd c \<ge> r) cands))"

definition spec_total :: "SRV list \<Rightarrow> nat" where
  "spec_total addrs = fst (spec_candidates (tier addrs) (0, []))"

section \<open>The first loop of \<^verbatim>\<open>libravatar.go\<close> walks the top-priority tier\<close>

lemma weigh_step_skip:
  "top_priority < Priority rr \<Longrightarrow>
   weigh_step rr (tw, recs, top_priority) = (tw, recs, top_priority)"
  by (simp add: weigh_step_def)

lemma weigh_step_same:
  "Priority rr = tp \<Longrightarrow> weigh_step rr (tw, recs, tp) =
     (tw + Weight rr,
      if Weight rr = 0 then \<lparr>srv = rr, weight = tw + Weight rr\<rparr> # recs
      else recs @ [\<lparr>srv = rr, weight = tw + Weight rr\<rparr>], tp)"
  by (simp add: weigh_step_def Let_def word_greater_zero_iff)

lemma weigh_step_reset:
  "Priority rr < tp \<Longrightarrow> weigh_step rr (tw, recs, tp) = weigh_step rr (0, [], Priority rr)"
proof -
  assume lt: "Priority rr < tp"
  then have "\<not> tp < Priority rr" by (rule less_asym) simp
  with lt show ?thesis by (simp add: weigh_step_def)
qed

text \<open>While no record undercuts \<open>tp\<close>, the loop sees only the records of priority \<open>tp\<close>.\<close>

lemma weigh_above:
  "\<forall>x\<in>set xs. tp \<le> Priority x \<Longrightarrow>
   weigh xs (tw, recs, tp) = weigh (filter (\<lambda>x. Priority x = tp) xs) (tw, recs, tp)"
proof (induction xs arbitrary: tw recs)
  case Nil
  show ?case by simp
next
  case (Cons x xs)
  show ?case
  proof (cases "Priority x = tp")
    case True
    then show ?thesis using Cons by (simp add: weigh_step_same)
  next
    case False
    with Cons.prems have "tp < Priority x" by (simp add: less_le)
    then show ?thesis using Cons False by (simp add: weigh_step_skip)
  qed
qed

text \<open>
  When a record undercuts \<open>tp\<close>, the reset branch forgets what was collected: the
  result is that of the walk of the lowest-priority records from the empty state.
\<close>

lemma weigh_below:
  "xs \<noteq> [] \<Longrightarrow> Min (Priority ` set xs) < tp \<Longrightarrow>
   weigh xs (tw, recs, tp) =
   weigh (filter (\<lambda>x. Priority x = Min (Priority ` set xs)) xs) (0, [], Min (Priority ` set xs))"
proof (induction xs arbitrary: tw recs tp)
  case Nil
  then show ?case by simp
next
  case (Cons x xs)
  define p where "p = Min (Priority ` set (x # xs))"
  define m where "m = Min (Priority ` set xs)"
  have ple: "p \<le> Priority x" by (simp add: p_def)
  have plt: "p < tp" using Cons.prems(2) by (simp only: p_def)
  have IH: "weigh xs (tw', recs', tp') = weigh (filter (\<lambda>y. Priority y = m) xs) (0, [], m)"
    if "xs \<noteq> []" "m < tp'" for tw' recs' tp'
    using Cons.IH [of tp' tw' recs'] that unfolding m_def by blast
  have rest: "xs \<noteq> [] \<and> m = p" if "p < Priority x"
  proof -
    from that have ne: "xs \<noteq> []" by (auto simp: p_def)
    then have "p = min (Priority x) m" by (simp add: p_def m_def)
    with that have "m = p" by (metis min_def less_irrefl)
    with ne show ?thesis by simp
  qed
  have goal: "weigh (x # xs) (tw, recs, tp) =
              weigh (filter (\<lambda>y. Priority y = p) (x # xs)) (0, [], p)"
  proof (cases "Priority x = p")
    case True
    then have lt: "Priority x < tp" using plt by simp
    have all: "\<forall>y\<in>set xs. p \<le> Priority y" by (simp add: p_def)
    obtain tw' recs' where st: "weigh_step x (0, [], p) = (tw', recs', p)"
      using True by (simp add: weigh_step_same)
    have "weigh (x # xs) (tw, recs, tp) = weigh xs (tw', recs', p)"
      using weigh_step_reset [OF lt, of tw recs] st True by simp
    also have "\<dots> = weigh (filter (\<lambda>y. Priority y = p) xs) (tw', recs', p)"
      by (rule weigh_above [OF all])
    also have "\<dots> = weigh (filter (\<lambda>y. Priority y = p) (x # xs)) (0, [], p)"
      using True st by simp
    finally show ?thesis .
  next
    case False
    with ple have lt: "p < Priority x" by (metis order.not_eq_order_implies_strict)
    from rest [OF lt] have ne: "xs \<noteq> []" and mp: "m = p" by simp_all
    obtain tw' recs' tp' where st: "weigh_step x (tw, recs, tp) = (tw', recs', tp')"
      by (metis prod_cases3)
    have "p < tp'"
    proof (cases "Priority x < tp")
      case True
      then show ?thesis using st lt weigh_step_reset [OF True, of tw recs]
        by (simp add: weigh_step_same)
    next
      case nlt: False
      show ?thesis
      proof (cases "Priority x = tp")
        case True
        then show ?thesis using st plt by (simp add: weigh_step_same)
      next
        case False
        with nlt have "tp < Priority x" by (metis not_less_iff_gr_or_eq)
        then show ?thesis using st plt by (simp add: weigh_step_skip)
      qed
    qed
    then have "m < tp'" using mp by simp
    from IH [OF ne this]
    have "weigh xs (tw', recs', tp') = weigh (filter (\<lambda>y. Priority y = p) xs) (0, [], p)"
      using mp by simp
    then show ?thesis using st False by simp
  qed
  then show ?case by (simp only: p_def)
qed

lemma tier_Min:
  "tier addrs = filter (\<lambda>x. Priority x = Min (Priority ` set addrs)) addrs"
proof (cases "addrs = []")
  case True
  then show ?thesis by (simp add: tier_def)
next
  case False
  have "list_all (\<lambda>b. Priority a \<le> Priority b) addrs = (Priority a = Min (Priority ` set addrs))"
    if a: "a \<in> set addrs" for a
  proof
    assume "list_all (\<lambda>b. Priority a \<le> Priority b) addrs"
    then have "\<forall>b\<in>set addrs. Priority a \<le> Priority b" by (simp add: list_all_iff)
    then show "Priority a = Min (Priority ` set addrs)"
      using a by (intro Min_eqI [symmetric]) auto
  next
    assume "Priority a = Min (Priority ` set addrs)"
    then show "list_all (\<lambda>b. Priority a \<le> Priority b) addrs"
      by (simp add: list_all_iff)
  qed
  then show ?thesis unfolding tier_def by (intro filter_cong) auto
qed

lemma tier_set:
  "set (tier addrs) = {a \<in> set addrs. \<forall>b\<in>set addrs. Priority a \<le> Priority b}"
  by (auto simp: tier_def list_all_iff)

lemma tier_uniform: "\<forall>x\<in>set (tier addrs). Priority x = Min (Priority ` set addrs)"
  by (simp add: tier_Min)

text \<open>Whatever the order of the priorities, the loop is the walk of the tier.\<close>

lemma weigh_tier:
  assumes "addrs \<noteq> []"
  shows "weigh addrs (0, [], Priority (hd addrs)) =
         weigh (tier addrs) (0, [], Min (Priority ` set addrs))"
proof (cases "Min (Priority ` set addrs) < Priority (hd addrs)")
  case True
  then show ?thesis using assms weigh_below [of addrs "Priority (hd addrs)" 0 "[]"]
    by (simp add: tier_Min)
next
  case False
  have "Min (Priority ` set addrs) \<le> Priority (hd addrs)" using assms by simp
  with False have eq: "Priority (hd addrs) = Min (Priority ` set addrs)"
    by (metis order.not_eq_order_implies_strict)
  have "\<forall>x\<in>set addrs. Min (Priority ` set addrs) \<le> Priority x" by simp
  then show ?thesis using eq weigh_above [of addrs "Min (Priority ` set addrs)" 0 "[]"]
    by (simp add: tier_Min)
qed

text \<open>On records of one priority the loop keeps them all.\<close>

lemma weigh_records:
  "weigh xs (tw, recs, tp) = (tw', recs', tp') \<Longrightarrow> \<forall>x\<in>set xs. Priority x = tp \<Longrightarrow>
   srv ` set recs' = set xs \<union> srv ` set recs \<and>
   length recs' = length xs + length recs \<and> tp' = tp"
proof (induction xs arbitrary: tw recs)
  case Nil
  then show ?case by simp
next
  case (Cons x xs)
  from Cons.prems(2) have px: "Priority x = tp" and rest: "\<forall>y\<in>set xs. Priority y = tp"
    by simp_all
  let ?r = "\<lparr>srv = x, weight = tw + Weight x\<rparr>"
  show ?case
  proof (cases "Weight x = 0")
    case True
    then have "weigh xs (tw + Weight x, ?r # recs, tp) = (tw', recs', tp')"
      using Cons.prems(1) by (simp add: weigh_step_same [OF px])
    from Cons.IH [OF this rest] show ?thesis by simp
  next
    case False
    then have "weigh xs (tw + Weight x, recs @ [?r], tp) = (tw', recs', tp')"
      using Cons.prems(1) by (simp add: weigh_step_same [OF px])
    from Cons.IH [OF this rest] show ?thesis by simp
  qed
qed

lemma first_match_srv: "first_match recs n = Some s \<Longrightarrow> s \<in> srv ` set recs"
  by (induction recs) (simp_all split: if_splits)

text \<open>What \<^verbatim>\<open>top_record\<close> is computed from, for a list that is not empty.\<close>

lemma top_record_unfold:
  assumes "addrs \<noteq> []"
    and "weigh (tier addrs) (0, [], Min (Priority ` set addrs)) = (tw, recs, tp)"
  shows "top_record addrs r =
      (if length recs = 1 then Inr (srv (recs ! 0))
       else case Intn r (uint tw) of
              Inl p \<Rightarrow> Inl p
            | Inr n \<Rightarrow> (case first_match recs (word_of_int n) of
                         None \<Rightarrow> Inl NilDereference
                       | Some s \<Rightarrow> Inr s))"
  using assms(2) by (simp add: top_record_def weigh_tier [OF assms(1)])

lemma top_record_Nil: "top_record [] r = Inl IntnArgument"
  by (simp add: top_record_def Intn_def)

lemma top_record_tier:
  assumes "top_record addrs r = Inr s"
  shows "s \<in> set (tier addrs)"
proof -
  from assms have ne: "addrs \<noteq> []" by (auto simp: top_record_Nil)
  obtain tw recs tp where
    w: "weigh (tier addrs) (0, [], Min (Priority ` set addrs)) = (tw, recs, tp)"
    by (metis prod_cases3)
  from weigh_records [OF w tier_uniform] have recs: "srv ` set recs = set (tier addrs)"
    by simp
  note tr = top_record_unfold [OF ne w, of r]
  show ?thesis
  proof (cases "length recs = 1")
    case True
    then have "srv (recs ! 0) \<in> srv ` set recs" by (cases recs) simp_all
    then show ?thesis using assms True recs tr by simp
  next
    case False
    with assms tr obtain n where "first_match recs (word_of_int n) = Some s"
      by (auto split: sum.splits option.splits)
    from first_match_srv [OF this] recs show ?thesis by simp
  qed
qed


section \<open>Priorities\<close>

text \<open>
  C4. Whatever the list returned by the lookup and whatever the random draw, a record
  that the selector of \<^verbatim>\<open>libravatar.go\<close> returns is a record of the list whose priority
  no record of the list undercuts: a record of a priority above the lowest one present
  is never returned.
\<close>

theorem top_record_lowest_priority:
  "top_record addrs r = Inr s \<Longrightarrow>
   s \<in> set addrs \<and> (\<forall>a\<in>set addrs. Priority s \<le> Priority a)"
  using top_record_tier [of addrs r s] by (simp add: tier_set)

theorem top_record_lowest_priority_witness:
  "top_record [\<lparr>Target = ''b.example.'', Port = 80, Priority = 2, Weight = 5\<rparr>,
               \<lparr>Target = ''a.example.'', Port = 80, Priority = 1, Weight = 0\<rparr>] 3
     = Inr \<lparr>Target = ''a.example.'', Port = 80, Priority = 1, Weight = 0\<rparr>
   \<and> Priority \<lparr>Target = ''a.example.'', Port = 80, Priority = 1, Weight = 0\<rparr>
       \<le> Priority \<lparr>Target = ''b.example.'', Port = 80, Priority = 2, Weight = 5\<rparr>"
proof -
  have e: "top_record [\<lparr>Target = ''b.example.'', Port = 80, Priority = 2, Weight = 5\<rparr>,
               \<lparr>Target = ''a.example.'', Port = 80, Priority = 1, Weight = 0\<rparr>] 3
     = Inr \<lparr>Target = ''a.example.'', Port = 80, Priority = 1, Weight = 0\<rparr>"
    by (simp add: top_record_def weigh_step_def)
  from top_record_lowest_priority [OF e] show ?thesis using e by simp
qed

section \<open>Tiers of weight zero\<close>

lemma weigh_all_zero:
  "\<forall>x\<in>set xs. Priority x = tp \<and> Weight x = 0 \<Longrightarrow>
   weigh xs (tw, recs, tp) = (tw, rev (map (\<lambda>x. \<lparr>srv = x, weight = tw\<rparr>) xs) @ recs, tp)"
proof (induction xs arbitrary: recs)
  case Nil
  show ?case by simp
next
  case (Cons x xs)
  then have "weigh_step x (tw, recs, tp) = (tw, \<lparr>srv = x, weight = tw\<rparr> # recs, tp)"
    by (simp add: weigh_step_same)
  then show ?case using Cons by simp
qed

lemma top_record_all_zero:
  assumes "2 \<le> length (tier addrs)" and "\<forall>a\<in>set (tier addrs). Weight a = 0"
  shows "top_record addrs r = Inl IntnArgument"
proof -
  from assms(1) have ne: "addrs \<noteq> []" by (auto simp: tier_def)
  have "\<forall>x\<in>set (tier addrs). Priority x = Min (Priority ` set addrs) \<and> Weight x = 0"
    using assms(2) tier_uniform by blast
  from weigh_all_zero [OF this, of 0 "[]"]
  have w: "weigh (tier addrs) (0, [], Min (Priority ` set addrs)) =
           (0, rev (map (\<lambda>x. \<lparr>srv = x, weight = 0\<rparr>) (tier addrs)), Min (Priority ` set addrs))"
    by simp
  show ?thesis using assms(1) by (simp add: top_record_unfold [OF ne w] Intn_def)
qed

lemma tier_length_le: "length (tier addrs) \<le> length addrs"
  by (simp add: tier_def)

text \<open>
  C2. The claim asks that a tier of two or more records, all of weight 0, still yields
  one of them. \<^verbatim>\<open>libravatar.go\<close> has no branch for it: the cumulative weight stays 0,
  the candidate list has as many entries as the tier, and \<^verbatim>\<open>rand.Intn(0)\<close> panics.
  This holds for every such answer of the lookup (with no error or with a DNS error
  that is not a timeout), whatever the handle, the host and the generator.
\<close>

theorem baseURL_all_zero_tier_panics:
  assumes "LookupSRV (if useHTTPS v then secureServiceBase v else serviceBase v) ''tcp'' host
             = (addrs, e)"
    and "e = None \<or> e = Some (DNSError False)"
    and "2 \<le> length (tier addrs)"
    and "\<forall>a\<in>set (tier addrs). Weight a = 0"
  shows "fst (baseURL LookupSRV r v host) = Inl IntnArgument"
proof -
  from assms(3) tier_length_le [of addrs] have len: "length addrs \<noteq> 1" "1 < length addrs"
    by simp_all
  from assms(1,2) len show ?thesis
    by (auto simp: baseURL_def top_record_all_zero [OF assms(3,4)])
qed

theorem baseURL_all_zero_tier_panics_witness:
  "(\<lambda>s p d. ([\<lparr>Target = ''a.example.'', Port = 80, Priority = 0, Weight = 0\<rparr>,
               \<lparr>Target = ''b.example.'', Port = 80, Priority = 0, Weight = 0\<rparr>], None))
     (if useHTTPS New then secureServiceBase New else serviceBase New) ''tcp'' ''example.org''
     = ([\<lparr>Target = ''a.example.'', Port = 80, Priority = 0, Weight = 0\<rparr>,
         \<lparr>Target = ''b.example.'', Port = 80, Priority = 0, Weight = 0\<rparr>], None)
   \<and> 2 \<le> length (tier [\<lparr>Target = ''a.example.'', Port = 80, Priority = 0, Weight = 0\<rparr>,
                          \<lparr>Target = ''b.example.'', Port = 80, Priority = 0, Weight = 0\<rparr>])
   \<and> fst (baseURL
        (\<lambda>s p d. ([\<lparr>Target = ''a.example.'', Port = 80, Priority = 0, Weight = 0\<rparr>,
                    \<lparr>Target = ''b.example.'', Port = 80, Priority = 0, Weight = 0\<rparr>], None))
        0 New ''example.org'') = Inl IntnArgument"
proof -
  let ?a = "\<lparr>Target = ''a.example.'', Port = 80, Priority = 0, Weight = 0 :: uint16\<rparr>"
  let ?b = "\<lparr>Target = ''b.example.'', Port = 80, Priority = 0, Weight = 0 :: uint16\<rparr>"
  let ?dns = "\<lambda>(s :: string) (p :: string) (d :: string). ([?a, ?b], None :: go_error option)"
  have t: "tier [?a, ?b] = [?a, ?b]" by (simp add: tier_def)
  have 1: "?dns (if useHTTPS New then secureServiceBase New else serviceBase New) ''tcp''
             ''example.org'' = ([?a, ?b], None)" by simp
  have 2: "None = None \<or> None = Some (DNSError False)" by simp
  have 3: "2 \<le> length (tier [?a, ?b])" by (simp add: t)
  have 4: "\<forall>x\<in>set (tier [?a, ?b]). Weight x = 0" by (simp add: t)
  from baseURL_all_zero_tier_panics [of ?dns New "''example.org''" "[?a, ?b]" None 0, OF 1 2 3 4]
  show ?thesis using 3 by simp
qed


section \<open>A record of weight zero behind a weighted one\<close>

lemma draw_le:
  "r < 65536 \<Longrightarrow> ((of_nat r :: uint16) \<le> w) = (r \<le> unat w)"
  by (simp add: word_le_nat_alt unat_of_nat)

lemma draw_zero:
  "r < 65536 \<Longrightarrow> ((of_nat r :: uint16) = 0) = (r = 0)"
  by (simp add: unat_eq_0 [symmetric] unat_of_nat del: unat_eq_0)

text \<open>
  C3. The claim asks that with one record of weight 0 and one of weight 10 in the
  tier either record is chosen for some draw, in either order. When the lookup returns
  the weighted record first, \<^verbatim>\<open>libravatar.go\<close> tags the record of weight 0 with the
  running total 10 and puts it in front, so that it is taken for every draw of
  \<^verbatim>\<open>rand.Intn(10)\<close>: the record of weight 10 is never chosen.
\<close>

theorem weighted_record_starved:
  assumes "Priority p = Priority z" and "Weight p = 10" and "Weight z = 0" and "r < 10"
  shows "top_record [p, z] r = Inr z"
proof -
  have "weigh [p, z] (0, [], Priority p) =
        (10, [\<lparr>srv = z, weight = 10\<rparr>, \<lparr>srv = p, weight = 10\<rparr>], Priority p)"
    using assms(1-3) by (simp add: weigh_step_same)
  then show ?thesis using assms(4) by (simp add: top_record_def Intn_def draw_le draw_zero)
qed

theorem weighted_record_starved_witness:
  "Priority \<lparr>Target = ''p.example.'', Port = 80, Priority = 0, Weight = 10\<rparr>
     = Priority \<lparr>Target = ''z.example.'', Port = 80, Priority = 0, Weight = 0\<rparr>
   \<and> (9 :: nat) < 10
   \<and> top_record [\<lparr>Target = ''p.example.'', Port = 80, Priority = 0, Weight = 10\<rparr>,
                 \<lparr>Target = ''z.example.'', Port = 80, Priority = 0, Weight = 0\<rparr>] 9
       = Inr \<lparr>Target = ''z.example.'', Port = 80, Priority = 0, Weight = 0\<rparr>"
  using weighted_record_starved
    [of "\<lparr>Target = ''p.example.'', Port = 80, Priority = 0, Weight = 10\<rparr>"
        "\<lparr>Target = ''z.example.'', Port = 80, Priority = 0, Weight = 0\<rparr>" 9]
  by simp

text \<open>In the other order both records are chosen: the one of weight 0 for the draw 0,
  the other for the draws 1 to 9.\<close>

lemma zero_first_both_chosen:
  assumes "Priority p = Priority z" and "Weight p = 10" and "Weight z = 0" and "r < 10"
  shows "top_record [z, p] r = Inr (if r = 0 then z else p)"
proof -
  have "weigh [z, p] (0, [], Priority z) =
        (10, [\<lparr>srv = z, weight = 0\<rparr>, \<lparr>srv = p, weight = 10\<rparr>], Priority z)"
    using assms(1-3) by (simp add: weigh_step_same)
  then show ?thesis using assms(4) by (simp add: top_record_def Intn_def draw_le draw_zero)
qed


section \<open>The cumulative weight is a 16-bit counter\<close>

text \<open>
  C1. The claim describes the walk with a running cumulative weight \<open>W\<close> and a draw
  of \<open>[0, W)\<close>. In \<^verbatim>\<open>libravatar.go\<close> the running total is a \<^verbatim>\<open>uint16\<close>, as the
  weights are, and it wraps: with two records of weight 40000 in the tier the total is
  14464 and not 80000, the second record carries the tag 14464, the draw is one of
  \<^verbatim>\<open>rand.Intn(14464)\<close>, and the first record is taken for every draw. The algorithm
  of the specification takes the second record for every draw above 40000.
\<close>

theorem cumulative_weight_wraps:
  assumes "Priority a = Priority b" and "Weight a = 40000" and "Weight b = 40000"
    and "r < 14464"
  shows "weigh [a, b] (0, [], Priority (hd [a, b])) =
           (14464, [\<lparr>srv = a, weight = 40000\<rparr>, \<lparr>srv = b, weight = 14464\<rparr>], Priority a)
       \<and> top_record [a, b] r = Inr a
       \<and> spec_total [a, b] = 80000
       \<and> spec_select [a, b] 50000 = Some b"
proof -
  have w: "weigh [a, b] (0, [], Priority a) =
           (14464, [\<lparr>srv = a, weight = 40000\<rparr>, \<lparr>srv = b, weight = 14464\<rparr>], Priority a)"
    using assms(1-3) by (simp add: weigh_step_same)
  have t: "tier [a, b] = [a, b]" using assms(1) by (simp add: tier_def)
  have c: "spec_candidates [a, b] (0, []) = (80000, [(a, 40000), (b, 80000)])"
    using assms(2,3) by simp
  have 1: "top_record [a, b] r = Inr a"
    using w assms(4) by (simp add: top_record_def Intn_def draw_le draw_zero)
  have 2: "spec_total [a, b] = 80000" unfolding spec_total_def t c by simp
  have 3: "spec_select [a, b] 50000 = Some b" unfolding spec_select_def t c by simp
  from w 1 2 3 show ?thesis by simp
qed

theorem cumulative_weight_wraps_witness:
  "Priority \<lparr>Target = ''a.example.'', Port = 80, Priority = 0, Weight = 40000\<rparr>
     = Priority \<lparr>Target = ''b.example.'', Port = 80, Priority = 0, Weight = 40000\<rparr>
   \<and> (14463 :: nat) < 14464
   \<and> top_record [\<lparr>Target = ''a.example.'', Port = 80, Priority = 0, Weight = 40000\<rparr>,
                 \<lparr>Target = ''b.example.'', Port = 80, Priority = 0, Weight = 40000\<rparr>] 14463
       = Inr \<lparr>Target = ''a.example.'', Port = 80, Priority = 0, Weight = 40000\<rparr>
   \<and> spec_select [\<lparr>Target = ''a.example.'', Port = 80, Priority = 0, Weight = 40000\<rparr>,
                  \<lparr>Target = ''b.example.'', Port = 80, Priority = 0, Weight = 40000\<rparr>] 50000
       = Some \<lparr>Target = ''b.example.'', Port = 80, Priority = 0, Weight = 40000\<rparr>"
  using cumulative_weight_wraps
    [of "\<lparr>Target = ''a.example.'', Port = 80, Priority = 0, Weight = 40000\<rparr>"
        "\<lparr>Target = ''b.example.'', Port = 80, Priority = 0, Weight = 40000\<rparr>" 14463]
  by simp

section \<open>The name cache of \<^verbatim>\<open>unnamed/part_000\<close>\<close>

text \<open>For a TTL that is not the largest duration, the saturation of \<^verbatim>\<open>Sub\<close> does not
  show: the test on the entry compares the difference of the two times with the TTL.\<close>

lemma Sub_le_iff:
  "minDuration \<le> ttl \<Longrightarrow> ttl < maxDuration \<Longrightarrow> (Sub now t \<le> ttl) = (now - t \<le> ttl)"
  by (auto simp: Sub_def Let_def)

lemma cached_p000_iff:
  assumes "minDuration \<le> nameCacheDuration_p000 v" and "nameCacheDuration_p000 v < maxDuration"
  shows "cached_p000 now v key = Some tgt \<longleftrightarrow>
         (\<exists>e. nameCache_p000 v key = Some e \<and> now - checkedAt e \<le> nameCacheDuration_p000 v
              \<and> tgt = target e)"
  by (auto simp: cached_p000_def Sub_le_iff [OF assms] split: option.splits)

lemma cached_p000_None_iff:
  assumes "minDuration \<le> nameCacheDuration_p000 v" and "nameCacheDuration_p000 v < maxDuration"
  shows "cached_p000 now v key = None \<longleftrightarrow>
         (\<forall>e. nameCache_p000 v key = Some e \<longrightarrow> nameCacheDuration_p000 v < now - checkedAt e)"
  by (auto simp: cached_p000_def Sub_le_iff [OF assms] split: option.splits)

text \<open>One direction needs no more than a TTL that is a \<^verbatim>\<open>time.Duration\<close>.\<close>

lemma cached_p000_fresh:
  assumes "minDuration \<le> nameCacheDuration_p000 v" and "nameCacheDuration_p000 v \<le> maxDuration"
    and "nameCache_p000 v key = Some e" and "now - checkedAt e \<le> nameCacheDuration_p000 v"
  shows "cached_p000 now v key = Some (target e)"
  using assms by (auto simp: cached_p000_def Sub_def Let_def)

text \<open>A fresh entry answers the call: no lookup, no write.\<close>

lemma baseURL_p000_hit:
  "cached_p000 now v (key_p000 host https) = Some tgt \<Longrightarrow>
   baseURL_p000 dns now v host https = (Inr (scheme_p000 https @ tgt, None), v, [])"
  by (simp add: baseURL_p000_def)

text \<open>Without a fresh entry the call makes one lookup, whatever comes of it.\<close>

lemma baseURL_p000_miss_queries:
  "cached_p000 now v (key_p000 host https) = None \<Longrightarrow>
   snd (snd (baseURL_p000 dns now v host https)) = [(service_p000 https, ''tcp'', host)]"
  by (simp add: baseURL_p000_def Let_def split: prod.splits option.splits go_error.splits bool.splits)

text \<open>The time to live and the other settings are not written by the call.\<close>

lemma baseURL_p000_settings:
  "baseURL_p000 dns now v host https = (res, v1, qs) \<Longrightarrow>
   nameCacheDuration_p000 v1 = nameCacheDuration_p000 v \<and>
   fallbackHost_p000 v1 = fallbackHost_p000 v"
  by (auto simp: baseURL_p000_def Let_def
      split: prod.splits option.splits go_error.splits bool.splits if_splits)

text \<open>A call that returns a URL leaves an entry for the key whose target is the rest of
  the URL; when the call made a lookup, the entry is new and carries the time of the call.\<close>

lemma baseURL_p000_entry:
  assumes "baseURL_p000 dns now v host https = (Inr (u, None), v1, qs)"
  shows "\<exists>e. nameCache_p000 v1 (key_p000 host https) = Some e \<and> u = scheme_p000 https @ target e
             \<and> (cached_p000 now v (key_p000 host https) = None \<longrightarrow> checkedAt e = now)"
proof (cases "cached_p000 now v (key_p000 host https)")
  case (Some tgt)
  with assms have "u = scheme_p000 https @ tgt" "v1 = v"
    by (simp_all add: baseURL_p000_hit)
  moreover from Some obtain e where "nameCache_p000 v (key_p000 host https) = Some e" "tgt = target e"
    by (auto simp: cached_p000_def split: option.splits if_splits)
  ultimately show ?thesis using Some by simp
next
  case None
  with assms show ?thesis
    by (auto simp: baseURL_p000_def Let_def
        split: prod.splits option.splits go_error.splits bool.splits if_splits)
qed

text \<open>
  The cache at work. In \<^verbatim>\<open>unnamed/part_000\<close>, for a handle whose TTL is a duration
  below the largest one (24 hours by default) and for every key (service of the
  protocol class, domain):
  \<^item> an entry of age \<open>now - checkedAt \<le> TTL\<close> answers the call with scheme + cached
    target, without a DNS query and without a write;
  \<^item> with no entry, or with an entry older than the TTL, the call makes exactly one DNS
    query, and when it returns a URL the entry of the key is overwritten with the
    target returned and the time of the call (a call that ends in an error writes
    nothing);
  \<^item> when a resolution has returned a URL, a later resolution of the same key at which
    the entry is not older than the TTL returns the same URL and makes no DNS query,
    whatever the DNS would answer by then.
\<close>

theorem cache_window_p000:
  assumes "minDuration \<le> nameCacheDuration_p000 v" and "nameCacheDuration_p000 v < maxDuration"
  shows "(\<forall>e. nameCache_p000 v (key_p000 host https) = Some e
               \<and> now - checkedAt e \<le> nameCacheDuration_p000 v \<longrightarrow>
             baseURL_p000 dns now v host https =
               (Inr (scheme_p000 https @ target e, None), v, []))
       \<and> ((\<forall>e. nameCache_p000 v (key_p000 host https) = Some e \<longrightarrow>
                 nameCacheDuration_p000 v < now - checkedAt e) \<longrightarrow>
            snd (snd (baseURL_p000 dns now v host https)) = [(service_p000 https, ''tcp'', host)]
            \<and> (\<forall>u v1 qs. baseURL_p000 dns now v host https = (Inr (u, None), v1, qs) \<longrightarrow>
                 (\<exists>tgt. u = scheme_p000 https @ tgt \<and>
                    nameCache_p000 v1 (key_p000 host https)
                      = Some \<lparr>target = tgt, checkedAt = now\<rparr>)))
       \<and> (\<forall>u v1 qs. baseURL_p000 dns now v host https = (Inr (u, None), v1, qs) \<longrightarrow>
            (\<exists>e. nameCache_p000 v1 (key_p000 host https) = Some e \<and>
               (\<forall>later dns'. later - checkedAt e \<le> nameCacheDuration_p000 v \<longrightarrow>
                  baseURL_p000 dns' later v1 host https = (Inr (u, None), v1, []))))"
proof (intro conjI allI impI)
  fix e
  assume "nameCache_p000 v (key_p000 host https) = Some e
          \<and> now - checkedAt e \<le> nameCacheDuration_p000 v"
  then have "cached_p000 now v (key_p000 host https) = Some (target e)"
    by (simp add: cached_p000_iff [OF assms])
  then show "baseURL_p000 dns now v host https = (Inr (scheme_p000 https @ target e, None), v, [])"
    by (rule baseURL_p000_hit)
next
  assume "\<forall>e. nameCache_p000 v (key_p000 host https) = Some e \<longrightarrow>
              nameCacheDuration_p000 v < now - checkedAt e"
  then have "cached_p000 now v (key_p000 host https) = None"
    by (simp add: cached_p000_None_iff [OF assms])
  then show "snd (snd (baseURL_p000 dns now v host https)) = [(service_p000 https, ''tcp'', host)]"
    by (rule baseURL_p000_miss_queries)
next
  fix u v1 qs
  assume old: "\<forall>e. nameCache_p000 v (key_p000 host https) = Some e \<longrightarrow>
              nameCacheDuration_p000 v < now - checkedAt e"
    and ret: "baseURL_p000 dns now v host https = (Inr (u, None), v1, qs)"
  from old have none: "cached_p000 now v (key_p000 host https) = None"
    by (simp add: cached_p000_None_iff [OF assms])
  from baseURL_p000_entry [OF ret] none obtain e where
    e: "nameCache_p000 v1 (key_p000 host https) = Some e" "u = scheme_p000 https @ target e"
       "checkedAt e = now"
    by auto
  then have "e = \<lparr>target = target e, checkedAt = now\<rparr>" by simp
  with e show "\<exists>tgt. u = scheme_p000 https @ tgt \<and>
      nameCache_p000 v1 (key_p000 host https) = Some \<lparr>target = tgt, checkedAt = now\<rparr>"
    by metis
next
  fix u v1 qs
  assume ret: "baseURL_p000 dns now v host https = (Inr (u, None), v1, qs)"
  from baseURL_p000_entry [OF ret] obtain e where
    e: "nameCache_p000 v1 (key_p000 host https) = Some e" "u = scheme_p000 https @ target e"
    by auto
  from baseURL_p000_settings [OF ret] have ttl: "nameCacheDuration_p000 v1 = nameCacheDuration_p000 v"
    by simp
  have "baseURL_p000 dns' later v1 host https = (Inr (u, None), v1, [])"
    if "later - checkedAt e \<le> nameCacheDuration_p000 v" for later dns'
  proof -
    have "cached_p000 later v1 (key_p000 host https) = Some (target e)"
      using that e(1) ttl assms by (simp add: cached_p000_iff)
    from baseURL_p000_hit [OF this] show ?thesis using e(2) by simp
  qed
  with e(1) show "\<exists>e. nameCache_p000 v1 (key_p000 host https) = Some e \<and>
      (\<forall>later dns'. later - checkedAt e \<le> nameCacheDuration_p000 v \<longrightarrow>
          baseURL_p000 dns' later v1 host https = (Inr (u, None), v1, []))"
    by blast
qed

theorem cache_window_p000_witness:
  "minDuration \<le> nameCacheDuration_p000 New_p000
   \<and> nameCacheDuration_p000 New_p000 < maxDuration
   \<and> baseURL_p000
        (\<lambda>s p d. ([\<lparr>Target = ''avatars.kbt.io.'', Port = 80, Priority = 0, Weight = 0\<rparr>], None))
        1000 New_p000 ''kbt.io'' False
       = (Inr (''http://avatars.kbt.io'', None),
          New_p000\<lparr>nameCache_p000 :=
            [key_p000 ''kbt.io'' False \<mapsto> \<lparr>target = ''avatars.kbt.io'', checkedAt = 1000\<rparr>]\<rparr>,
          [(''avatars'', ''tcp'', ''kbt.io'')])
   \<and> baseURL_p000 (\<lambda>s p d. ([], Some (DNSError True))) (1000 + 24 * Hour)
        (New_p000\<lparr>nameCache_p000 :=
            [key_p000 ''kbt.io'' False \<mapsto> \<lparr>target = ''avatars.kbt.io'', checkedAt = 1000\<rparr>]\<rparr>)
        ''kbt.io'' False
       = (Inr (''http://avatars.kbt.io'', None),
          New_p000\<lparr>nameCache_p000 :=
            [key_p000 ''kbt.io'' False \<mapsto> \<lparr>target = ''avatars.kbt.io'', checkedAt = 1000\<rparr>]\<rparr>,
          [])
   \<and> snd (snd (baseURL_p000 (\<lambda>s p d. ([], Some (DNSError True))) (1001 + 24 * Hour)
        (New_p000\<lparr>nameCache_p000 :=
            [key_p000 ''kbt.io'' False \<mapsto> \<lparr>target = ''avatars.kbt.io'', checkedAt = 1000\<rparr>]\<rparr>)
        ''kbt.io'' False))
       = [(''avatars'', ''tcp'', ''kbt.io'')]"
proof -
  let ?ok = "\<lambda>(s :: string) (p :: string) (d :: string).
      ([\<lparr>Target = ''avatars.kbt.io.'', Port = 80, Priority = 0, Weight = 0 :: uint16\<rparr>],
       None :: go_error option)"
  let ?down = "\<lambda>(s :: string) (p :: string) (d :: string).
      ([] :: SRV list, Some (DNSError True))"
  let ?e = "\<lparr>target = ''avatars.kbt.io'', checkedAt = 1000\<rparr>"
  let ?v1 = "New_p000\<lparr>nameCache_p000 := [key_p000 ''kbt.io'' False \<mapsto> ?e]\<rparr>"
  have ttl: "nameCacheDuration_p000 New_p000 = 24 * Hour"
    "nameCacheDuration_p000 ?v1 = 24 * Hour"
    by (simp_all add: New_p000_def)
  have lo: "minDuration \<le> 24 * Hour" and hi: "24 * Hour < maxDuration"
    by (simp_all add: minDuration_def maxDuration_def Hour_def)
  have first: "baseURL_p000 ?ok 1000 New_p000 ''kbt.io'' False =
      (Inr (''http://avatars.kbt.io'', None), ?v1, [(''avatars'', ''tcp'', ''kbt.io'')])"
    by (simp add: baseURL_p000_def cached_p000_def New_p000_def key_p000_def scheme_p000_def
        service_p000_def)
  have entry: "nameCache_p000 ?v1 (key_p000 ''kbt.io'' False) = Some ?e" by simp
  have lo0: "minDuration \<le> nameCacheDuration_p000 New_p000"
    and hi0: "nameCacheDuration_p000 New_p000 < maxDuration"
    and lo1: "minDuration \<le> nameCacheDuration_p000 ?v1"
    and hi1: "nameCacheDuration_p000 ?v1 < maxDuration"
    using lo hi by (simp_all only: ttl)
  note c0 = cache_window_p000 [of New_p000 "''kbt.io''" False 1000 ?ok, OF lo0 hi0]
  from c0 [THEN conjunct2, THEN conjunct2, rule_format, OF first]
  obtain e where e: "nameCache_p000 ?v1 (key_p000 ''kbt.io'' False) = Some e"
    "\<And>later dns'. later - checkedAt e \<le> nameCacheDuration_p000 New_p000 \<Longrightarrow>
       baseURL_p000 dns' later ?v1 ''kbt.io'' False = (Inr (''http://avatars.kbt.io'', None), ?v1, [])"
    by blast
  from e(1) entry have "checkedAt e = 1000" by auto
  then have "(1000 + 24 * Hour) - checkedAt e \<le> nameCacheDuration_p000 New_p000"
    by (simp only: ttl)
  from e(2) [OF this, of ?down]
  have second: "baseURL_p000 ?down (1000 + 24 * Hour) ?v1 ''kbt.io'' False =
      (Inr (''http://avatars.kbt.io'', None), ?v1, [])" .
  have old: "nameCacheDuration_p000 ?v1 < 1001 + 24 * Hour - checkedAt e"
    if "nameCache_p000 ?v1 (key_p000 ''kbt.io'' False) = Some e" for e
    using that by (auto simp: New_p000_def)
  note c1 = cache_window_p000 [of ?v1 "''kbt.io''" False "1001 + 24 * Hour" ?down, OF lo1 hi1]
  from c1 [THEN conjunct2, THEN conjunct1, rule_format, OF old, THEN conjunct1]
  have third: "snd (snd (baseURL_p000 ?down (1001 + 24 * Hour) ?v1 ''kbt.io'' False)) =
      [(service_p000 False, ''tcp'', ''kbt.io'')]" .
  have svc: "service_p000 False = ''avatars''" by (simp add: service_p000_def)
  from lo0 hi0 first second third [unfolded svc] show ?thesis
    by (intro conjI)
qed


section \<open>Lookups that fail\<close>

text \<open>What the call of \<^verbatim>\<open>unnamed/part_000\<close> does with each answer of the lookup it makes.\<close>

lemma baseURL_p000_timeout:
  assumes "cached_p000 now v (key_p000 host https) = None"
    and "dns (service_p000 https) ''tcp'' host = (addrs, Some (DNSError True))"
  shows "baseURL_p000 dns now v host https =
           (Inr (scheme_p000 https, Some (DNSError True)), v, [(service_p000 https, ''tcp'', host)])"
  using assms by (simp add: baseURL_p000_def)

lemma baseURL_p000_empty:
  assumes "cached_p000 now v (key_p000 host https) = None"
    and "dns (service_p000 https) ''tcp'' host = ([], None)"
  shows "baseURL_p000 dns now v host https =
           (Inr (scheme_p000 https, Some (ErrorString ''empty SRV response'')), v,
            [(service_p000 https, ''tcp'', host)])"
  using assms by (simp add: baseURL_p000_def)

lemma baseURL_p000_not_found:
  assumes "cached_p000 now v (key_p000 host https) = None"
    and "dns (service_p000 https) ''tcp'' host = (addrs, Some (DNSError False))"
  shows "baseURL_p000 dns now v host https =
           (Inr (scheme_p000 https @ fallbackHost_p000 v, None),
            v\<lparr>nameCache_p000 := (nameCache_p000 v)
                 (key_p000 host https \<mapsto> \<lparr>target = fallbackHost_p000 v, checkedAt = now\<rparr>)\<rparr>,
            [(service_p000 https, ''tcp'', host)])"
  using assms by (simp add: baseURL_p000_def)

lemma baseURL_p000_other_error:
  assumes "cached_p000 now v (key_p000 host https) = None"
    and "dns (service_p000 https) ''tcp'' host = (addrs, Some (ErrorString m))"
  shows "baseURL_p000 dns now v host https =
           (Inl TypeAssertion, v, [(service_p000 https, ''tcp'', host)])"
  using assms by (simp add: baseURL_p000_def)

text \<open>The same for \<^verbatim>\<open>libravatar.go\<close>, which makes the lookup at every call.\<close>

lemma baseURL_queries:
  "snd (baseURL LookupSRV r v host) =
     [(if useHTTPS v then secureServiceBase v else serviceBase v, ''tcp'', host)]"
  by (simp add: baseURL_def split: prod.splits)

lemma baseURL_timeout:
  assumes "LookupSRV (if useHTTPS v then secureServiceBase v else serviceBase v) ''tcp'' host
             = (addrs, Some (DNSError True))"
  shows "fst (baseURL LookupSRV r v host) = Inr ('''', Some (DNSError True))"
  using assms by (auto simp: baseURL_def)

lemma baseURL_no_records:
  assumes "LookupSRV (if useHTTPS v then secureServiceBase v else serviceBase v) ''tcp'' host
             = ([], e)"
    and "e = None \<or> e = Some (DNSError False)"
  shows "fst (baseURL LookupSRV r v host) =
           Inr (if useHTTPS v then ''https://'' @ secureFallbackHost v
                else ''http://'' @ fallbackHost v, None)"
  using assms by (auto simp: baseURL_def)

lemma baseURL_other_error:
  assumes "LookupSRV (if useHTTPS v then secureServiceBase v else serviceBase v) ''tcp'' host
             = (addrs, Some (ErrorString m))"
  shows "fst (baseURL LookupSRV r v host) = Inl TypeAssertion"
  using assms by (auto simp: baseURL_def)

text \<open>
  The fallback is cached. In \<^verbatim>\<open>unnamed/part_000\<close>, whatever \<^verbatim>\<open>time.Duration\<close> the TTL
  is, a resolution
  that goes to the DNS (no entry of the key within the TTL) and whose lookup fails with
  a DNS error that is not a timeout returns
  scheme + fallback host with no error, makes that one query, and stores the fallback
  host for the key with the time of the call; a later resolution of the key at most a
  TTL after it returns the same URL without a DNS query, whatever the DNS would answer.
\<close>

theorem not_found_falls_back_p000:
  assumes "minDuration \<le> nameCacheDuration_p000 v" and "nameCacheDuration_p000 v \<le> maxDuration"
    and "cached_p000 now v (key_p000 host https) = None"
    and "dns (service_p000 https) ''tcp'' host = (addrs, Some (DNSError False))"
  shows "\<exists>v1. baseURL_p000 dns now v host https =
                (Inr (scheme_p000 https @ fallbackHost_p000 v, None), v1,
                 [(service_p000 https, ''tcp'', host)])
            \<and> nameCache_p000 v1 (key_p000 host https)
                = Some \<lparr>target = fallbackHost_p000 v, checkedAt = now\<rparr>
            \<and> (\<forall>later dns'. later - now \<le> nameCacheDuration_p000 v \<longrightarrow>
                  baseURL_p000 dns' later v1 host https =
                    (Inr (scheme_p000 https @ fallbackHost_p000 v, None), v1, []))"
proof -
  let ?v1 = "v\<lparr>nameCache_p000 := (nameCache_p000 v)
      (key_p000 host https \<mapsto> \<lparr>target = fallbackHost_p000 v, checkedAt = now\<rparr>)\<rparr>"
  note first = baseURL_p000_not_found [of now v host https dns addrs, OF assms(3,4)]
  have entry: "nameCache_p000 ?v1 (key_p000 host https)
      = Some \<lparr>target = fallbackHost_p000 v, checkedAt = now\<rparr>"
    by simp
  have "baseURL_p000 dns' later ?v1 host https =
          (Inr (scheme_p000 https @ fallbackHost_p000 v, None), ?v1, [])"
    if "later - now \<le> nameCacheDuration_p000 v" for later dns'
  proof -
    have "minDuration \<le> nameCacheDuration_p000 ?v1" "nameCacheDuration_p000 ?v1 \<le> maxDuration"
      using assms(1,2) by simp_all
    from cached_p000_fresh [OF this entry, of later]
    have "cached_p000 later ?v1 (key_p000 host https) = Some (fallbackHost_p000 v)"
      using that by simp
    then show ?thesis by (rule baseURL_p000_hit)
  qed
  with first entry show ?thesis by blast
qed

theorem not_found_falls_back_p000_witness:
  "minDuration \<le> nameCacheDuration_p000 New_p000
   \<and> nameCacheDuration_p000 New_p000 \<le> maxDuration
   \<and> cached_p000 0 New_p000 (key_p000 ''example.org'' False) = None
   \<and> baseURL_p000 (\<lambda>s p d. ([], Some (DNSError False))) 0 New_p000 ''example.org'' False
       = (Inr (''http://cdn.libravatar.org'', None),
          New_p000\<lparr>nameCache_p000 := [key_p000 ''example.org'' False \<mapsto>
                      \<lparr>target = ''cdn.libravatar.org'', checkedAt = 0\<rparr>]\<rparr>,
          [(''avatars'', ''tcp'', ''example.org'')])
   \<and> baseURL_p000 (\<lambda>s p d. ([], Some (DNSError True))) (24 * Hour)
        (New_p000\<lparr>nameCache_p000 := [key_p000 ''example.org'' False \<mapsto>
                      \<lparr>target = ''cdn.libravatar.org'', checkedAt = 0\<rparr>]\<rparr>)
        ''example.org'' False
       = (Inr (''http://cdn.libravatar.org'', None),
          New_p000\<lparr>nameCache_p000 := [key_p000 ''example.org'' False \<mapsto>
                      \<lparr>target = ''cdn.libravatar.org'', checkedAt = 0\<rparr>]\<rparr>,
          [])"
proof -
  let ?nf = "\<lambda>(s :: string) (p :: string) (d :: string).
      ([] :: SRV list, Some (DNSError False))"
  let ?down = "\<lambda>(s :: string) (p :: string) (d :: string).
      ([] :: SRV list, Some (DNSError True))"
  let ?v1 = "New_p000\<lparr>nameCache_p000 := [key_p000 ''example.org'' False \<mapsto>
                      \<lparr>target = ''cdn.libravatar.org'', checkedAt = 0\<rparr>]\<rparr>"
  have ttl: "nameCacheDuration_p000 New_p000 = 24 * Hour" by (simp add: New_p000_def)
  have lo: "minDuration \<le> nameCacheDuration_p000 New_p000"
    and hi: "nameCacheDuration_p000 New_p000 \<le> maxDuration"
    by (simp_all add: New_p000_def minDuration_def maxDuration_def Hour_def)
  have miss: "cached_p000 0 New_p000 (key_p000 ''example.org'' False) = None"
    by (simp add: cached_p000_def New_p000_def)
  have dns: "?nf (service_p000 False) ''tcp'' ''example.org'' = ([], Some (DNSError False))"
    by simp
  have first: "baseURL_p000 ?nf 0 New_p000 ''example.org'' False =
      (Inr (''http://cdn.libravatar.org'', None), ?v1, [(''avatars'', ''tcp'', ''example.org'')])"
    using baseURL_p000_not_found [of 0 New_p000 "''example.org''" False ?nf "[]", OF miss dns]
    by (simp add: New_p000_def scheme_p000_def service_p000_def)
  from not_found_falls_back_p000 [of New_p000 0 "''example.org''" False ?nf "[]", OF lo hi miss dns]
  obtain v1 where
    v1: "baseURL_p000 ?nf 0 New_p000 ''example.org'' False =
           (Inr (scheme_p000 False @ fallbackHost_p000 New_p000, None), v1,
            [(service_p000 False, ''tcp'', ''example.org'')])"
    and later: "\<And>later dns'. later - 0 \<le> nameCacheDuration_p000 New_p000 \<Longrightarrow>
           baseURL_p000 dns' later v1 ''example.org'' False =
             (Inr (scheme_p000 False @ fallbackHost_p000 New_p000, None), v1, [])"
    by blast
  from v1 first have eq: "v1 = ?v1" by simp
  have "24 * Hour - 0 \<le> nameCacheDuration_p000 New_p000" by (simp add: ttl)
  from later [OF this, of ?down]
  have second: "baseURL_p000 ?down (24 * Hour) ?v1 ''example.org'' False =
      (Inr (''http://cdn.libravatar.org'', None), ?v1, [])"
    unfolding eq by (simp add: scheme_p000_def New_p000_def)
  from lo hi miss first second show ?thesis by (intro conjI)
qed

text \<open>
  C6, as the code has it. On a timeout both \<^verbatim>\<open>unnamed/part_000\<close> (on a resolution that
  goes to the DNS) and \<^verbatim>\<open>libravatar.go\<close> return the error and write nothing. On an
  answer without records and without error \<^verbatim>\<open>unnamed/part_000\<close> returns the error
  \<^verbatim>\<open>empty SRV response\<close> and leaves the handle, the cache with it, as it was, while
  \<^verbatim>\<open>libravatar.go\<close> returns scheme + fallback host of the protocol class and no error.
\<close>

theorem failed_lookups:
  "(cached_p000 now v (key_p000 host https) = None \<longrightarrow>
      (dns (service_p000 https) ''tcp'' host = (addrs, Some (DNSError True)) \<longrightarrow>
         baseURL_p000 dns now v host https =
           (Inr (scheme_p000 https, Some (DNSError True)), v,
            [(service_p000 https, ''tcp'', host)]))
    \<and> (dns (service_p000 https) ''tcp'' host = ([], None) \<longrightarrow>
         baseURL_p000 dns now v host https =
           (Inr (scheme_p000 https, Some (ErrorString ''empty SRV response'')), v,
            [(service_p000 https, ''tcp'', host)])))
   \<and> (LookupSRV (if useHTTPS w then secureServiceBase w else serviceBase w) ''tcp'' host
         = (addrs, Some (DNSError True)) \<longrightarrow>
       fst (baseURL LookupSRV r w host) = Inr ('''', Some (DNSError True)))
   \<and> (LookupSRV (if useHTTPS w then secureServiceBase w else serviceBase w) ''tcp'' host
         = ([], None) \<longrightarrow>
       fst (baseURL LookupSRV r w host) =
         Inr (if useHTTPS w then ''https://'' @ secureFallbackHost w
              else ''http://'' @ fallbackHost w, None))"
  using baseURL_p000_timeout [of now v host https dns addrs]
    baseURL_p000_empty [of now v host https dns]
    baseURL_timeout [of LookupSRV w host addrs r]
    baseURL_no_records [of LookupSRV w host None r]
  by blast

theorem failed_lookups_witness:
  "cached_p000 0 New_p000 (key_p000 ''example.org'' False) = None
   \<and> baseURL_p000 (\<lambda>s p d. ([], Some (DNSError True))) 0 New_p000 ''example.org'' False
       = (Inr (''http://'', Some (DNSError True)), New_p000,
          [(''avatars'', ''tcp'', ''example.org'')])
   \<and> baseURL_p000 (\<lambda>s p d. ([], None)) 0 New_p000 ''example.org'' False
       = (Inr (''http://'', Some (ErrorString ''empty SRV response'')), New_p000,
          [(''avatars'', ''tcp'', ''example.org'')])
   \<and> fst (baseURL (\<lambda>s p d. ([], Some (DNSError True))) 0 New ''example.org'')
       = Inr ('''', Some (DNSError True))
   \<and> fst (baseURL (\<lambda>s p d. ([], None)) 0 New ''example.org'')
       = Inr (''http://cdn.libravatar.org'', None)"
proof -
  let ?down = "\<lambda>(s :: string) (p :: string) (d :: string).
      ([] :: SRV list, Some (DNSError True))"
  let ?empty = "\<lambda>(s :: string) (p :: string) (d :: string).
      ([] :: SRV list, None :: go_error option)"
  have miss: "cached_p000 0 New_p000 (key_p000 ''example.org'' False) = None"
    by (simp add: cached_p000_def New_p000_def)
  have sch: "scheme_p000 False = ''http://''" "service_p000 False = ''avatars''"
    by (simp_all add: scheme_p000_def service_p000_def)
  have new: "useHTTPS New = False" "fallbackHost New = ''cdn.libravatar.org''"
    by (simp_all add: New_def)
  have 1: "baseURL_p000 ?down 0 New_p000 ''example.org'' False
       = (Inr (''http://'', Some (DNSError True)), New_p000,
          [(''avatars'', ''tcp'', ''example.org'')])"
    using failed_lookups [of 0 New_p000 "''example.org''" False ?down "[]"] miss
    by (simp add: sch)
  have 2: "baseURL_p000 ?empty 0 New_p000 ''example.org'' False
       = (Inr (''http://'', Some (ErrorString ''empty SRV response'')), New_p000,
          [(''avatars'', ''tcp'', ''example.org'')])"
    using failed_lookups [of 0 New_p000 "''example.org''" False ?empty] miss
    by (simp add: sch)
  have 3: "fst (baseURL ?down 0 New ''example.org'') = Inr ('''', Some (DNSError True))"
    using failed_lookups [of _ _ "''example.org''" _ _ "[]" ?down New 0]
    by simp
  have 4: "fst (baseURL ?empty 0 New ''example.org'') = Inr (''http://cdn.libravatar.org'', None)"
    using failed_lookups [of _ _ "''example.org''" _ _ _ ?empty New 0]
    by (simp add: new)
  from miss 1 2 3 4 show ?thesis by (intro conjI)
qed

text \<open>
  The claim as it is worded fails on \<^verbatim>\<open>libravatar.go\<close>: a lookup that succeeds with no
  record is answered with the fallback URL and a nil error.
\<close>

theorem empty_answer_counterexample:
  "baseURL (\<lambda>s p d. ([], None)) 0 New ''example.org''
     = (Inr (''http://cdn.libravatar.org'', None), [(''avatars'', ''tcp'', ''example.org'')])"
  by (simp add: baseURL_def New_def)

section \<open>Errors that are not DNS errors\<close>

lemma baseURL_p001_other_error:
  assumes "dns (if useHTTPS_p001 v then ''avatars-sec'' else ''avatars'') ''tcp'' host
             = (addrs, Some (ErrorString m))"
  shows "fst (baseURL_p001 dns v host) = Inl TypeAssertion"
  using assms by (auto simp: baseURL_p001_def)

text \<open>
  C10. In each of the three versions, when the lookup returns an error whose dynamic
  type is not \<^verbatim>\<open>*net.DNSError\<close>, the type assertion panics and no error value is
  returned: in \<^verbatim>\<open>libravatar.go\<close> and \<^verbatim>\<open>unnamed/part_001\<close> at every call, in
  \<^verbatim>\<open>unnamed/part_000\<close> at every call that goes to the DNS.
\<close>

theorem type_assertion_panics:
  "(LookupSRV (if useHTTPS v then secureServiceBase v else serviceBase v) ''tcp'' host
      = (addrs, Some (ErrorString m)) \<longrightarrow>
    fst (baseURL LookupSRV r v host) = Inl TypeAssertion)
   \<and> (cached_p000 now v0 (key_p000 host https) = None
       \<and> LookupSRV (service_p000 https) ''tcp'' host = (addrs, Some (ErrorString m)) \<longrightarrow>
      fst (baseURL_p000 LookupSRV now v0 host https) = Inl TypeAssertion)
   \<and> (LookupSRV (if useHTTPS_p001 v1 then ''avatars-sec'' else ''avatars'') ''tcp'' host
        = (addrs, Some (ErrorString m)) \<longrightarrow>
      fst (baseURL_p001 LookupSRV v1 host) = Inl TypeAssertion)"
  using baseURL_other_error [of LookupSRV v host addrs m r]
    baseURL_p000_other_error [of now v0 host https LookupSRV addrs m]
    baseURL_p001_other_error [of LookupSRV v1 host addrs m]
  by simp

theorem type_assertion_panics_witness:
  "cached_p000 0 New_p000 (key_p000 ''example.org'' False) = None
   \<and> fst (baseURL (\<lambda>s p d. ([], Some (ErrorString ''lookup: i/o failure''))) 0 New
            ''example.org'') = Inl TypeAssertion
   \<and> fst (baseURL_p000 (\<lambda>s p d. ([], Some (ErrorString ''lookup: i/o failure''))) 0 New_p000
            ''example.org'' False) = Inl TypeAssertion
   \<and> fst (baseURL_p001 (\<lambda>s p d. ([], Some (ErrorString ''lookup: i/o failure''))) New_p001
            ''example.org'') = Inl TypeAssertion"
proof -
  let ?dns = "\<lambda>(s :: string) (p :: string) (d :: string).
      ([] :: SRV list, Some (ErrorString ''lookup: i/o failure''))"
  have miss: "cached_p000 0 New_p000 (key_p000 ''example.org'' False) = None"
    by (simp add: cached_p000_def New_p000_def)
  note t = type_assertion_panics [of ?dns New "''example.org''" "[]" "''lookup: i/o failure''"
      0 0 New_p000 False New_p001]
  from t miss show ?thesis by simp
qed


section \<open>The base URL of \<^verbatim>\<open>libravatar.go\<close>\<close>

lemma TrimSuffix_dot: "TrimSuffix (t @ ''.'') ''.'' = t"
  by (simp add: TrimSuffix_def)

lemma TrimSuffix_no_dot: "t = [] \<or> last t \<noteq> CHR ''.'' \<Longrightarrow> TrimSuffix t ''.'' = t"
proof (cases t rule: rev_cases)
  case Nil
  then show ?thesis by (simp add: TrimSuffix_def)
next
  case (snoc ys y)
  assume "t = [] \<or> last t \<noteq> CHR ''.''"
  with snoc show ?thesis by (simp add: TrimSuffix_def)
qed

text \<open>
  C8. In \<^verbatim>\<open>libravatar.go\<close>, when the lookup returns no error, or a DNS error that is not
  a timeout: with exactly one record the base URL is the scheme followed by the target
  of the record without its final dot, and nothing after it; with two or more records
  a call that returns gives no error and the scheme followed by the target (as it is),
  a colon and the port in decimal of the record that the selector has chosen, which is
  one of the records returned.
\<close>

theorem baseURL_of_records:
  assumes "LookupSRV (if useHTTPS v then secureServiceBase v else serviceBase v) ''tcp'' host
             = (addrs, e)"
    and "e = None \<or> e = Some (DNSError False)"
  shows "(\<forall>a. addrs = [a] \<longrightarrow>
            fst (baseURL LookupSRV r v host) =
              Inr ((if useHTTPS v then ''https://'' else ''http://'') @ TrimSuffix (Target a) ''.'',
                   None)
            \<and> (\<forall>t. Target a = t @ ''.'' \<longrightarrow>
                 fst (baseURL LookupSRV r v host) =
                   Inr ((if useHTTPS v then ''https://'' else ''http://'') @ t, None)))
       \<and> (2 \<le> length addrs \<longrightarrow>
            fst (baseURL LookupSRV r v host) =
              (case top_record addrs r of
                 Inl p \<Rightarrow> Inl p
               | Inr s \<Rightarrow>
                   Inr ((if useHTTPS v then ''https://'' else ''http://'')
                          @ Target s @ '':'' @ decimal (unat (Port s)), None))
            \<and> (\<forall>u er. fst (baseURL LookupSRV r v host) = Inr (u, er) \<longrightarrow>
                 er = None \<and>
                 (\<exists>s\<in>set addrs. top_record addrs r = Inr s \<and>
                    u = (if useHTTPS v then ''https://'' else ''http://'')
                          @ Target s @ '':'' @ decimal (unat (Port s)))))"
proof (intro conjI allI impI)
  fix a assume "addrs = [a]"
  with assms show one: "fst (baseURL LookupSRV r v host) =
      Inr ((if useHTTPS v then ''https://'' else ''http://'') @ TrimSuffix (Target a) ''.'', None)"
    by (auto simp: baseURL_def)
  fix t assume "Target a = t @ ''.''"
  with one show "fst (baseURL LookupSRV r v host) =
      Inr ((if useHTTPS v then ''https://'' else ''http://'') @ t, None)"
    by (simp add: TrimSuffix_dot)
next
  assume len: "2 \<le> length addrs"
  with assms show many: "fst (baseURL LookupSRV r v host) =
      (case top_record addrs r of
         Inl p \<Rightarrow> Inl p
       | Inr s \<Rightarrow>
           Inr ((if useHTTPS v then ''https://'' else ''http://'')
                  @ Target s @ '':'' @ decimal (unat (Port s)), None))"
    by (auto simp: baseURL_def split: sum.splits)
  fix u er assume ret: "fst (baseURL LookupSRV r v host) = Inr (u, er)"
  with many obtain s where s: "top_record addrs r = Inr s"
    "u = (if useHTTPS v then ''https://'' else ''http://'') @ Target s @ '':'' @ decimal (unat (Port s))"
    "er = None"
    by (auto split: sum.splits)
  from top_record_tier [OF s(1)] have "s \<in> set addrs" by (simp add: tier_set)
  with s show "er = None" and "\<exists>s\<in>set addrs. top_record addrs r = Inr s \<and>
      u = (if useHTTPS v then ''https://'' else ''http://'') @ Target s @ '':'' @ decimal (unat (Port s))"
    by auto
qed

theorem baseURL_of_records_witness:
  "fst (baseURL
     (\<lambda>s p d. ([\<lparr>Target = ''avatars.kbt.io.'', Port = 80, Priority = 0, Weight = 0\<rparr>], None))
     0 New ''kbt.io'') = Inr (''http://avatars.kbt.io'', None)
   \<and> fst (baseURL
     (\<lambda>s p d. ([\<lparr>Target = ''avatars.kbt.io'', Port = 80, Priority = 0, Weight = 0\<rparr>], None))
     0 New ''kbt.io'') = Inr (''http://avatars.kbt.io'', None)
   \<and> fst (baseURL
     (\<lambda>s p d. ([\<lparr>Target = ''a.example.'', Port = 8080, Priority = 0, Weight = 5\<rparr>,
                 \<lparr>Target = ''b.example.'', Port = 443, Priority = 0, Weight = 5\<rparr>], None))
     7 (SetUseHTTPS New True) ''example.org'') = Inr (''https://b.example.:443'', None)"
proof -
  let ?a = "\<lparr>Target = ''avatars.kbt.io.'', Port = 80, Priority = 0, Weight = 0 :: uint16\<rparr>"
  let ?a' = "\<lparr>Target = ''avatars.kbt.io'', Port = 80, Priority = 0, Weight = 0 :: uint16\<rparr>"
  let ?b = "\<lparr>Target = ''a.example.'', Port = 8080, Priority = 0, Weight = 5 :: uint16\<rparr>"
  let ?c = "\<lparr>Target = ''b.example.'', Port = 443, Priority = 0, Weight = 5 :: uint16\<rparr>"
  let ?one = "\<lambda>(s :: string) (p :: string) (d :: string). ([?a], None :: go_error option)"
  let ?one' = "\<lambda>(s :: string) (p :: string) (d :: string). ([?a'], None :: go_error option)"
  let ?two = "\<lambda>(s :: string) (p :: string) (d :: string). ([?b, ?c], None :: go_error option)"
  have new: "useHTTPS New = False" "useHTTPS (SetUseHTTPS New True) = True"
    by (simp_all add: New_def SetUseHTTPS_def)
  have 1: "fst (baseURL ?one 0 New ''kbt.io'') = Inr (''http://avatars.kbt.io'', None)"
    using baseURL_of_records [of ?one New "''kbt.io''" "[?a]" None 0,
        THEN conjunct1, rule_format, of ?a, THEN conjunct2, rule_format, of "''avatars.kbt.io''"]
    by (simp add: new)
  have 2: "fst (baseURL ?one' 0 New ''kbt.io'') = Inr (''http://avatars.kbt.io'', None)"
    using baseURL_of_records [of ?one' New "''kbt.io''" "[?a']" None 0,
        THEN conjunct1, rule_format, of ?a', THEN conjunct1]
    by (simp add: new TrimSuffix_def)
  have sel: "top_record [?b, ?c] 7 = Inr ?c"
    by (simp add: top_record_def weigh_step_def Intn_def)
  have port: "decimal 443 = ''443''"
    by (simp add: decimal.simps digit_def)
  have 3: "fst (baseURL ?two 7 (SetUseHTTPS New True) ''example.org'')
      = Inr (''https://b.example.:443'', None)"
    using baseURL_of_records [of ?two "SetUseHTTPS New True" "''example.org''" "[?b, ?c]" None 7,
        THEN conjunct2, rule_format, THEN conjunct1]
    by (simp add: new sel port)
  from 1 2 3 show ?thesis by (intro conjI)
qed

section \<open>The selector against the algorithm of the specification\<close>

text \<open>
  The loop of \<^verbatim>\<open>libravatar.go\<close> computes the image under \<open>of_nat\<close> of what the walk of
  the specification computes: the same candidates in the same order, with the tags and
  the total reduced modulo \<open>2 ^ 16\<close>.
\<close>

lemma weigh_spec_candidates:
  assumes "\<forall>x\<in>set xs. Priority x = tp"
    and "spec_candidates xs (W, cs) = (W', cs')"
  shows "weigh xs (of_nat W, map (\<lambda>c. \<lparr>srv = fst c, weight = of_nat (snd c)\<rparr>) cs, tp) =
         (of_nat W', map (\<lambda>c. \<lparr>srv = fst c, weight = of_nat (snd c)\<rparr>) cs', tp)"
  using assms
proof (induction xs arbitrary: W cs)
  case Nil
  then show ?case by simp
next
  case (Cons x xs)
  from Cons.prems(1) have px: "Priority x = tp" and rest: "\<forall>y\<in>set xs. Priority y = tp"
    by simp_all
  show ?case
  proof (cases "Weight x = 0")
    case True
    with Cons.prems(2) have "spec_candidates xs (W, (x, W) # cs) = (W', cs')" by simp
    from Cons.IH [OF rest this] show ?thesis
      using True by (simp add: weigh_step_same [OF px])
  next
    case False
    with Cons.prems(2)
    have "spec_candidates xs (W + unat (Weight x), cs @ [(x, W + unat (Weight x))]) = (W', cs')"
      by simp
    from Cons.IH [OF rest this] show ?thesis
      using False by (simp add: weigh_step_same [OF px])
  qed
qed

lemma spec_candidates_length:
  "spec_candidates xs (W, cs) = (W', cs') \<Longrightarrow> length cs' = length xs + length cs"
  by (induction xs arbitrary: W cs) (auto split: if_splits)

lemma spec_candidates_tags:
  "spec_candidates xs (W, cs) = (W', cs') \<Longrightarrow> \<forall>c\<in>set cs. snd c \<le> W \<Longrightarrow>
   W \<le> W' \<and> (\<forall>c\<in>set cs'. snd c \<le> W')"
proof (induction xs arbitrary: W cs)
  case Nil
  then show ?case by simp
next
  case (Cons x xs)
  show ?case
  proof (cases "Weight x = 0")
    case True
    with Cons.prems have "spec_candidates xs (W, (x, W) # cs) = (W', cs')"
      and "\<forall>c\<in>set ((x, W) # cs). snd c \<le> W" by simp_all
    from Cons.IH [OF this] show ?thesis .
  next
    case False
    let ?W = "W + unat (Weight x)"
    from False Cons.prems have "spec_candidates xs (?W, cs @ [(x, ?W)]) = (W', cs')"
      and "\<forall>c\<in>set (cs @ [(x, ?W)]). snd c \<le> ?W" by auto
    from Cons.IH [OF this] show ?thesis by simp
  qed
qed

lemma spec_candidates_last_tag:
  "spec_candidates xs (W, cs) = (W', cs') \<Longrightarrow> (0 < W \<longrightarrow> (\<exists>c\<in>set cs. snd c = W)) \<Longrightarrow>
   0 < W' \<longrightarrow> (\<exists>c\<in>set cs'. snd c = W')"
proof (induction xs arbitrary: W cs)
  case Nil
  then show ?case by simp
next
  case (Cons x xs)
  show ?case
  proof (cases "Weight x = 0")
    case True
    with Cons.prems have "spec_candidates xs (W, (x, W) # cs) = (W', cs')"
      and "0 < W \<longrightarrow> (\<exists>c\<in>set ((x, W) # cs). snd c = W)" by simp_all
    from Cons.IH [OF this] show ?thesis .
  next
    case False
    let ?W = "W + unat (Weight x)"
    from False Cons.prems have "spec_candidates xs (?W, cs @ [(x, ?W)]) = (W', cs')"
      and "0 < ?W \<longrightarrow> (\<exists>c\<in>set (cs @ [(x, ?W)]). snd c = ?W)" by simp_all
    from Cons.IH [OF this] show ?thesis .
  qed
qed

lemma first_match_find:
  "\<forall>c\<in>set cs. snd c < 65536 \<Longrightarrow> r < 65536 \<Longrightarrow>
   first_match (map (\<lambda>c. \<lparr>srv = fst c, weight = of_nat (snd c)\<rparr>) cs) (of_nat r) =
   map_option fst (find (\<lambda>c. r \<le> snd c) cs)"
proof (induction cs)
  case Nil
  show ?case by simp
next
  case (Cons c cs)
  then have "snd c < 65536" by simp
  then have "unat (of_nat (snd c) :: uint16) = snd c" by (simp add: unat_of_nat)
  with Cons show ?case by (simp add: draw_le)
qed

text \<open>
  While the weights of the tier sum to less than 65536, the selector of
  \<^verbatim>\<open>libravatar.go\<close> returns, for every draw below the total (and for every draw when the
  tier has one record), the record that the algorithm of the specification selects.
\<close>

lemma top_record_refines_spec:
  assumes "addrs \<noteq> []" and "spec_total addrs < 65536"
    and "r < spec_total addrs \<or> length (tier addrs) = 1"
  shows "\<exists>s. spec_select addrs r = Some s \<and> top_record addrs r = Inr s"
proof -
  obtain W cs where sc: "spec_candidates (tier addrs) (0, []) = (W, cs)"
    by (metis surj_pair)
  then have W: "W = spec_total addrs" by (simp add: spec_total_def)
  let ?tag = "\<lambda>c :: SRV \<times> nat. \<lparr>srv = fst c, weight = of_nat (snd c) :: uint16\<rparr>"
  from weigh_spec_candidates [OF tier_uniform sc]
  have w: "weigh (tier addrs) (0, [], Min (Priority ` set addrs)) =
           (of_nat W, map ?tag cs, Min (Priority ` set addrs))"
    by simp
  note tr = top_record_unfold [OF assms(1) w, of r]
  from spec_candidates_length [OF sc] have len: "length cs = length (tier addrs)" by simp
  show ?thesis
  proof (cases "length cs = 1")
    case True
    then obtain c where "cs = [c]" by (cases cs) auto
    then show ?thesis using tr sc by (simp add: spec_select_def)
  next
    case False
    with assms(3) len W have rW: "r < W" by simp
    with assms(2) W have small: "W < 65536" "r < 65536" by simp_all
    from spec_candidates_tags [OF sc] have tags: "\<forall>c\<in>set cs. snd c \<le> W" by simp
    with small have bounded: "\<forall>c\<in>set cs. snd c < 65536" by auto
    from spec_candidates_last_tag [OF sc] rW obtain c where "c \<in> set cs" "snd c = W" by auto
    with rW have "\<exists>c\<in>set cs. r \<le> snd c" by (auto intro: less_imp_le)
    then obtain d where d: "find (\<lambda>c. r \<le> snd c) cs = Some d"
      by (cases "find (\<lambda>c. r \<le> snd c) cs") (auto simp: find_None_iff)
    have "uint (of_nat W :: uint16) = int W"
      using small(1) by (simp add: uint_nat unat_of_nat)
    with rW have draw: "Intn r (uint (of_nat W :: uint16)) = Inr (int r)"
      by (simp add: Intn_def)
    have "top_record addrs r = Inr (fst d)"
      using False tr draw first_match_find [OF bounded small(2)] d by simp
    moreover have "spec_select addrs r = Some (fst d)"
      using False sc d by (simp add: spec_select_def)
    ultimately show ?thesis by simp
  qed
qed


section \<open>The cache fields of \<^verbatim>\<open>libravatar.go\<close>\<close>

text \<open>
  \<^verbatim>\<open>New\<close> of \<^verbatim>\<open>libravatar.go\<close> sets up \<^verbatim>\<open>nameCache\<close> and \<^verbatim>\<open>nameCacheDuration\<close>, but
  its \<^verbatim>\<open>baseURL\<close> reads neither: the result does not depend on them, and every call
  makes the lookup. The version of \<^verbatim>\<open>unnamed/part_000\<close> has the reads and the writes
  that are missing here (\<open>cache_window_p000\<close>, \<open>not_found_falls_back_p000\<close>).
\<close>

lemma baseURL_ignores_cache:
  "baseURL LookupSRV r (v\<lparr>nameCache := c, nameCacheDuration := d\<rparr>) host
     = baseURL LookupSRV r v host"
  by (simp add: baseURL_def)

text \<open>
  C5. The claim asks that a second resolution of a key within the TTL returns the base
  URL of the first and makes no DNS query. \<^verbatim>\<open>baseURL\<close> of \<^verbatim>\<open>libravatar.go\<close> does
  neither: whatever \<^verbatim>\<open>nameCache\<close> holds, an entry for the key included, the call
  makes the lookup, and its outcome is that of the handle with an empty cache. The
  handle is not written to, so a second resolution meets the handle of the first, makes
  the lookup again, and returns whatever the selector draws then.
\<close>

theorem baseURL_never_reads_cache:
  "snd (baseURL LookupSRV r (v\<lparr>nameCache := c\<rparr>) host)
     = [(if useHTTPS v then secureServiceBase v else serviceBase v, ''tcp'', host)]
   \<and> baseURL LookupSRV r (v\<lparr>nameCache := c\<rparr>) host
     = baseURL LookupSRV r (v\<lparr>nameCache := Map.empty\<rparr>) host"
  by (simp add: baseURL_def split: prod.splits)

theorem baseURL_never_reads_cache_witness:
  "baseURL
     (\<lambda>s p d. ([\<lparr>Target = ''a.example.'', Port = 8080, Priority = 0, Weight = 5\<rparr>,
                 \<lparr>Target = ''b.example.'', Port = 443, Priority = 0, Weight = 5\<rparr>], None))
     0 New ''example.org''
     = (Inr (''http://a.example.:8080'', None), [(''avatars'', ''tcp'', ''example.org'')])
   \<and> baseURL
     (\<lambda>s p d. ([\<lparr>Target = ''a.example.'', Port = 8080, Priority = 0, Weight = 5\<rparr>,
                 \<lparr>Target = ''b.example.'', Port = 443, Priority = 0, Weight = 5\<rparr>], None))
     7 New ''example.org''
     = (Inr (''http://b.example.:443'', None), [(''avatars'', ''tcp'', ''example.org'')])
   \<and> snd (baseURL
     (\<lambda>s p d. ([\<lparr>Target = ''a.example.'', Port = 8080, Priority = 0, Weight = 5\<rparr>,
                 \<lparr>Target = ''b.example.'', Port = 443, Priority = 0, Weight = 5\<rparr>], None))
     7
     (New\<lparr>nameCache := [\<lparr>service = ''avatars'', domain = ''example.org''\<rparr> \<mapsto>
                              \<lparr>target = ''a.example.:8080'', checkedAt = 1000\<rparr>]\<rparr>)
     ''example.org'')
     = [(''avatars'', ''tcp'', ''example.org'')]"
proof -
  let ?a = "\<lparr>Target = ''a.example.'', Port = 8080, Priority = 0, Weight = 5 :: uint16\<rparr>"
  let ?b = "\<lparr>Target = ''b.example.'', Port = 443, Priority = 0, Weight = 5 :: uint16\<rparr>"
  let ?two = "\<lambda>(s :: string) (p :: string) (d :: string). ([?a, ?b], None :: go_error option)"
  let ?c = "[\<lparr>service = ''avatars'', domain = ''example.org''\<rparr> \<mapsto>
              \<lparr>target = ''a.example.:8080'', checkedAt = 1000\<rparr>]"
  have new: "useHTTPS New = False" "serviceBase New = ''avatars''"
    by (simp_all add: New_def)
  have sel0: "top_record [?a, ?b] 0 = Inr ?a"
    by (simp add: top_record_def weigh_step_def Intn_def)
  have sel7: "top_record [?a, ?b] 7 = Inr ?b"
    by (simp add: top_record_def weigh_step_def Intn_def)
  have p1: "decimal 8080 = ''8080''" and p2: "decimal 443 = ''443''"
    by (simp_all add: decimal.simps digit_def)
  have 1: "baseURL ?two 0 New ''example.org''
      = (Inr (''http://a.example.:8080'', None), [(''avatars'', ''tcp'', ''example.org'')])"
    by (simp add: baseURL_def new sel0 p1)
  have 2: "baseURL ?two 7 New ''example.org''
      = (Inr (''http://b.example.:443'', None), [(''avatars'', ''tcp'', ''example.org'')])"
    by (simp add: baseURL_def new sel7 p2)
  from baseURL_never_reads_cache
    [where LookupSRV = ?two and r = 7 and v = New and c = ?c and host = "''example.org''",
     THEN conjunct1]
  have 3: "snd (baseURL ?two 7 (New\<lparr>nameCache := ?c\<rparr>) ''example.org'')
      = [(''avatars'', ''tcp'', ''example.org'')]"
    by (simp only: new if_False)
  from 1 2 3 show ?thesis by (intro conjI)
qed

text \<open>
  C7. The claim asks that a resolution whose lookup fails with a DNS error that is not a
  timeout returns scheme + fallback host with no error and stores the fallback host for
  the key, so that a second resolution within the TTL makes no DNS query. \<^verbatim>\<open>baseURL\<close>
  of \<^verbatim>\<open>libravatar.go\<close> returns scheme + fallback host of the protocol class with no
  error, but stores nothing: it has no write to \<^verbatim>\<open>nameCache\<close>, the handle stays as it
  was, and the next resolution of the key makes the lookup again, whatever the DNS
  answers then and however soon it comes.
\<close>

theorem baseURL_fallback_not_cached:
  assumes "LookupSRV (if useHTTPS v then secureServiceBase v else serviceBase v) ''tcp'' host
             = ([], Some (DNSError False))"
  shows "baseURL LookupSRV r v host =
           (Inr (if useHTTPS v then ''https://'' @ secureFallbackHost v
                 else ''http://'' @ fallbackHost v, None),
            [(if useHTTPS v then secureServiceBase v else serviceBase v, ''tcp'', host)])
       \<and> snd (baseURL LookupSRV' r' v host)
           = [(if useHTTPS v then secureServiceBase v else serviceBase v, ''tcp'', host)]"
  using assms by (auto simp: baseURL_def split: prod.splits)

theorem baseURL_fallback_not_cached_witness:
  "baseURL (\<lambda>s p d. ([], Some (DNSError False))) 0 New ''example.org''
     = (Inr (''http://cdn.libravatar.org'', None), [(''avatars'', ''tcp'', ''example.org'')])
   \<and> snd (baseURL (\<lambda>s p d. ([], Some (DNSError False))) 0 New ''example.org'')
     = [(''avatars'', ''tcp'', ''example.org'')]"
proof -
  let ?nf = "\<lambda>(s :: string) (p :: string) (d :: string).
      ([] :: SRV list, Some (DNSError False))"
  have new: "useHTTPS New = False" "serviceBase New = ''avatars''"
    "fallbackHost New = ''cdn.libravatar.org''"
    by (simp_all add: New_def)
  have dns: "?nf (if useHTTPS New then secureServiceBase New else serviceBase New) ''tcp''
      ''example.org'' = ([], Some (DNSError False))"
    by simp
  from baseURL_fallback_not_cached [of ?nf New "''example.org''" 0 ?nf 0, OF dns]
  show ?thesis by (simp add: new)
qed


section \<open>Configuration\<close>




end
